theory Spec2Isabelle
  imports Main
begin

section \<open>Exceptions and outcomes\<close>

text \<open>
  The module \<^verbatim>\<open>marvin/utilities/asyncutils.py\<close> has two handlers that select
  exceptions by class: \<^verbatim>\<open>except RuntimeError\<close> in \<^verbatim>\<open>run_sync\<close> and
  \<^verbatim>\<open>except Exception as e\<close> in \<^verbatim>\<open>run_async\<close>. An exception is its class and its
  message; the two predicates below are Python's \<^verbatim>\<open>isinstance\<close> for those two
  classes, following the built-in hierarchy (\<^verbatim>\<open>NotImplementedError\<close> and
  \<^verbatim>\<open>RecursionError\<close> derive from \<^verbatim>\<open>RuntimeError\<close>; \<^verbatim>\<open>KeyboardInterrupt\<close>,
  \<^verbatim>\<open>SystemExit\<close> and \<^verbatim>\<open>CancelledError\<close> derive from \<^verbatim>\<open>BaseException\<close> only).
  \<open>CancelledError\<close> and \<open>InvalidStateError\<close> are the classes of \<^verbatim>\<open>asyncio\<close>;
  \<open>FuturesCancelledError\<close> and \<open>FuturesInvalidStateError\<close> are the classes of the same names
  in \<^verbatim>\<open>concurrent.futures\<close>, which derive from \<^verbatim>\<open>Exception\<close>, as \<^verbatim>\<open>StopIteration\<close> does.
\<close>

datatype exc_class =
    RuntimeError
  | NotImplementedError
  | RecursionError
  | UserRuntimeError string
  | ValueError
  | TypeError
  | AttributeError
  | UserException string
  | StopIteration
  | InvalidStateError
  | FuturesCancelledError
  | FuturesInvalidStateError
  | KeyboardInterrupt
  | SystemExit
  | CancelledError

datatype exn = Exn (exc_class: exc_class) (message: string)

fun subclass_of_RuntimeError :: "exc_class \<Rightarrow> bool" where
  "subclass_of_RuntimeError RuntimeError = True"
| "subclass_of_RuntimeError NotImplementedError = True"
| "subclass_of_RuntimeError RecursionError = True"
| "subclass_of_RuntimeError (UserRuntimeError n) = True"
| "subclass_of_RuntimeError k = False"

fun subclass_of_Exception :: "exc_class \<Rightarrow> bool" where
  "subclass_of_Exception KeyboardInterrupt = False"
| "subclass_of_Exception SystemExit = False"
| "subclass_of_Exception CancelledError = False"
| "subclass_of_Exception k = True"

definition isinstance_RuntimeError :: "exn \<Rightarrow> bool" where
  "isinstance_RuntimeError e = subclass_of_RuntimeError (exc_class e)"

definition isinstance_Exception :: "exn \<Rightarrow> bool" where
  "isinstance_Exception e = subclass_of_Exception (exc_class e)"

text \<open>
  What a call does: it returns a value, raises an exception, or never comes back
  (\<open>Hangs\<close>: the unit of work does not terminate, so the caller blocks forever).
\<close>

datatype 'a outcome = Returned 'a | Raised exn | Hangs

text \<open>
  A unit of work (a coroutine object) is opaque to this module: all the module does with
  it is hand it to a scheduler, which drives it to completion. Its behaviour is what
  driving it produces.
\<close>

datatype 'a coroutine = Coroutine (behaviour: "'a outcome")

section \<open>The host runtime\<close>

text \<open>
  The module consumes \<^verbatim>\<open>asyncio\<close> and \<^verbatim>\<open>concurrent.futures\<close>; they are not part of
  the repository. The host state below holds what the module observes of them:
  \<^item> \<open>running\<close>: the table of running event loops, a loop per thread that hosts one.
    \<^verbatim>\<open>asyncio.get_running_loop()\<close> reads it by thread (``return the running event loop
    in the current OS thread; raise \<^verbatim>\<open>RuntimeError\<close> if there is none''), and
    \<^verbatim>\<open>loop.is_running()\<close> reads it by loop (``return \<^verbatim>\<open>True\<close> if the event loop is
    currently running'');
  \<^item> \<open>next_thread\<close>: the threads \<open>0 ..< next_thread\<close> exist, a new one gets the next
    number;
  \<^item> \<open>workers\<close>: the pool threads that were started and not yet joined;
  \<^item> \<open>default_pool\<close>: the idle threads of the default executor of each loop that has
    one (a thread of that pool is never joined, and between two calls it is idle);
  \<^item> \<open>trace\<close>: a log of what happened where, kept only to state properties.
\<close>

type_synonym thread = nat
type_synonym loop = nat

datatype arm = IsolatedArm | InlineElseArm | FallbackArm

datatype event =
    ThreadSpawned thread
  | ThreadJoined thread
  | LoopStarted thread
  | Executed thread
  | LoopClosed thread
  | Called thread
  | Took arm

record host =
  running :: "(thread \<times> loop) list"
  next_thread :: thread
  workers :: "thread list"
  default_pool :: "(loop \<times> thread list) list"
  trace :: "event list"

definition emit :: "event list \<Rightarrow> host \<Rightarrow> host" where
  "emit es h = h\<lparr>trace := trace h @ es\<rparr>"

definition events_since :: "host \<Rightarrow> host \<Rightarrow> event list" where
  "events_since h h' = drop (length (trace h)) (trace h')"

definition scheduler_active :: "host \<Rightarrow> thread \<Rightarrow> bool" where
  "scheduler_active h t = (map_of (running h) t \<noteq> None)"

definition threads_exist :: "host \<Rightarrow> bool" where
  "threads_exist h =
     (list_all (\<lambda>(t, l). t < next_thread h) (running h) \<and>
      list_all (\<lambda>w. w < next_thread h) (workers h))"

definition get_running_loop :: "host \<Rightarrow> thread \<Rightarrow> exn + loop" where
  "get_running_loop h t =
     (case map_of (running h) t of
        None \<Rightarrow> Inl (Exn RuntimeError ''no running event loop'')
      | Some l \<Rightarrow> Inr l)"

definition is_running :: "host \<Rightarrow> loop \<Rightarrow> bool" where
  "is_running h l = (l \<in> set (map snd (running h)))"

text \<open>
  \<^verbatim>\<open>asyncio.run(coro)\<close> on thread \<open>t\<close>: it refuses to start when a loop is already
  running in that thread (``this function cannot be called when another asyncio event
  loop is running in the same thread''); otherwise it creates a loop, drives the
  coroutine to completion on \<open>t\<close>, closes the loop and returns or raises what the
  coroutine did. When the coroutine never finishes, neither does the call.
\<close>

definition asyncio_run :: "host \<Rightarrow> thread \<Rightarrow> 'a coroutine \<Rightarrow> 'a outcome \<times> host" where
  "asyncio_run h t c =
     (if scheduler_active h t
      then (Raised (Exn RuntimeError ''asyncio.run() cannot be called from a running event loop''), h)
      else
        (let h1 = emit [LoopStarted t, Executed t] h in
         case behaviour c of
           Hangs \<Rightarrow> (Hangs, h1)
         | Returned v \<Rightarrow> (Returned v, emit [LoopClosed t] h1)
         | Raised e \<Rightarrow> (Raised e, emit [LoopClosed t] h1)))"

text \<open>
  \<^verbatim>\<open>with ThreadPoolExecutor() as executor: future = executor.submit(asyncio.run, coro);
  return future.result()\<close>. The pool is new, so \<^verbatim>\<open>submit\<close> starts a new thread \<open>w\<close> and
  runs the call there; \<^verbatim>\<open>future.result()\<close> blocks until the call is over and returns
  or re-raises what it did; leaving the \<^verbatim>\<open>with\<close> block, on a return or on an
  exception, shuts the pool down and joins \<open>w\<close>.
\<close>

definition spawn :: "host \<Rightarrow> thread \<times> host" where
  "spawn h =
     (let w = next_thread h
      in (w, emit [ThreadSpawned w] (h\<lparr>next_thread := Suc w, workers := w # workers h\<rparr>)))"

definition join :: "thread \<Rightarrow> host \<Rightarrow> host" where
  "join w h = emit [ThreadJoined w] (h\<lparr>workers := removeAll w (workers h)\<rparr>)"

definition run_in_pool :: "host \<Rightarrow> 'a coroutine \<Rightarrow> 'a outcome \<times> host" where
  "run_in_pool h c =
     (case spawn h of (w, h1) \<Rightarrow>
        (case asyncio_run h1 w c of
           (Hangs, h2) \<Rightarrow> (Hangs, h2)
         | (r, h2) \<Rightarrow> (r, join w h2)))"

section \<open>run_sync\<close>

text \<open>
  \<^verbatim>\<open>
  def run_sync(coroutine):
      try:
          loop = asyncio.get_running_loop()
          if loop.is_running():
              with ThreadPoolExecutor() as executor:
                  future = executor.submit(asyncio.run, coroutine)
                  return future.result()
          else:
              return asyncio.run(coroutine)
      except RuntimeError:
          return asyncio.run(coroutine)
  \<close>
  \<open>try_block\<close> is the body of the \<^verbatim>\<open>try\<close>; \<open>run_sync\<close> adds the handler, which
  guards the whole body: the probe and both arms. The call is made on thread \<open>t\<close>.
\<close>

definition try_block :: "host \<Rightarrow> thread \<Rightarrow> 'a coroutine \<Rightarrow> 'a outcome \<times> host" where
  "try_block h t c =
     (case get_running_loop h t of
        Inl e \<Rightarrow> (Raised e, h)
      | Inr l \<Rightarrow>
          (if is_running h l
           then run_in_pool (emit [Took IsolatedArm] h) c
           else asyncio_run (emit [Took InlineElseArm] h) t c))"

definition run_sync :: "host \<Rightarrow> thread \<Rightarrow> 'a coroutine \<Rightarrow> 'a outcome \<times> host" where
  "run_sync h t c =
     (case try_block h t c of
        (Raised e, h') \<Rightarrow>
          (if isinstance_RuntimeError e
           then asyncio_run (emit [Took FallbackArm] h') t c
           else (Raised e, h'))
      | (r, h') \<Rightarrow> (r, h'))"

text \<open>
  Awaiting a unit of work directly, from scheduled code whose scheduler runs on thread
  \<open>t\<close>: that scheduler drives it, on its own thread.
\<close>

definition await_under_scheduler :: "host \<Rightarrow> thread \<Rightarrow> 'a coroutine \<Rightarrow> 'a outcome \<times> host" where
  "await_under_scheduler h t c = (behaviour c, emit [Executed t] h)"

section \<open>run_async\<close>

text \<open>
  \<^verbatim>\<open>
  async def run_async(func, *args, **kwargs):
      async def wrapper():
          try:
              return await loop.run_in_executor(
                  None, functools.partial(func, *args, **kwargs))
          except Exception as e:
              raise e
      loop = asyncio.get_event_loop()
      return await wrapper()
  \<close>
  A blocking function is what calling it on its arguments does.
  \<^verbatim>\<open>get_event_loop\<close>, called here from a coroutine, answers with the loop that runs it;
  with no loop in the thread it raises \<^verbatim>\<open>RuntimeError\<close> (Python 3.14; older versions
  create a loop there instead).
\<close>

definition get_event_loop :: "host \<Rightarrow> thread \<Rightarrow> exn + loop" where
  "get_event_loop h t =
     (case map_of (running h) t of
        None \<Rightarrow> Inl (Exn RuntimeError ''There is no current event loop'')
      | Some l \<Rightarrow> Inr l)"

text \<open>
  \<^verbatim>\<open>loop.run_in_executor(None, f)\<close> is
  \<^verbatim>\<open>futures.wrap_future(executor.submit(f), loop=self)\<close> on the default executor of the
  loop, a thread pool that the loop creates on first use.
  \<^item> \<^verbatim>\<open>submit\<close> starts a thread only when the pool has no idle one; otherwise an idle
    thread of the pool takes the call (which one is the pool's choice; here the first).
    The thread runs the call (\<open>Called\<close>) and stays in the pool.
  \<^item> When the call is over, its result or exception is copied from the pool's future into
    the future that the coroutine awaits (\<^verbatim>\<open>_copy_future_state\<close>). On the way an
    exception whose class is exactly \<^verbatim>\<open>concurrent.futures.CancelledError\<close> or
    \<^verbatim>\<open>concurrent.futures.InvalidStateError\<close> is replaced by a new exception of the
    \<^verbatim>\<open>asyncio\<close> class of that name with the same arguments (\<^verbatim>\<open>_convert_future_exc\<close>),
    and \<^verbatim>\<open>Future.set_exception\<close> refuses a \<^verbatim>\<open>StopIteration\<close>: it raises a
    \<^verbatim>\<open>TypeError\<close> inside the loop's callback, the awaited future is never completed,
    and the await never returns (CPython 3.11).
\<close>

definition convert_future_exc :: "exn \<Rightarrow> exn" where
  "convert_future_exc e =
     (if exc_class e = FuturesCancelledError then Exn CancelledError (message e)
      else if exc_class e = FuturesInvalidStateError then Exn InvalidStateError (message e)
      else e)"

definition copy_future_state :: "'a outcome \<Rightarrow> 'a outcome" where
  "copy_future_state r =
     (case r of
        Returned v \<Rightarrow> Returned v
      | Raised e \<Rightarrow>
          (if exc_class (convert_future_exc e) = StopIteration then Hangs
           else Raised (convert_future_exc e))
      | Hangs \<Rightarrow> Hangs)"

definition pool_of :: "host \<Rightarrow> loop \<Rightarrow> thread list" where
  "pool_of h l = (case map_of (default_pool h) l of None \<Rightarrow> [] | Some ws \<Rightarrow> ws)"

definition submit_default :: "host \<Rightarrow> loop \<Rightarrow> thread \<times> host" where
  "submit_default h l =
     (case pool_of h l of
        [] \<Rightarrow> (case spawn h of (w, h1) \<Rightarrow> (w, h1\<lparr>default_pool := (l, [w]) # default_pool h1\<rparr>))
      | w # ws \<Rightarrow> (w, h))"

definition run_in_executor ::
  "host \<Rightarrow> loop \<Rightarrow> ('x \<Rightarrow> 'a outcome) \<Rightarrow> 'x \<Rightarrow> 'a outcome \<times> host" where
  "run_in_executor h l func args =
     (case submit_default h l of
        (w, h1) \<Rightarrow> (copy_future_state (func args), emit [Called w] h1))"

definition wrapper :: "host \<Rightarrow> loop \<Rightarrow> ('x \<Rightarrow> 'a outcome) \<Rightarrow> 'x \<Rightarrow> 'a outcome \<times> host" where
  "wrapper h l func args =
     (case run_in_executor h l func args of
        (Raised e, h') \<Rightarrow>
          (if isinstance_Exception e then (Raised e, h') else (Raised e, h'))
      | (r, h') \<Rightarrow> (r, h'))"

definition run_async :: "host \<Rightarrow> thread \<Rightarrow> ('x \<Rightarrow> 'a outcome) \<Rightarrow> 'x \<Rightarrow> 'a outcome \<times> host" where
  "run_async h t func args =
     (case get_event_loop h t of
        Inl e \<Rightarrow> (Raised e, h)
      | Inr l \<Rightarrow> wrapper h l func args)"

section \<open>create_task and the registry of background tasks\<close>

text \<open>
  \<^verbatim>\<open>
  BACKGROUND_TASKS = set()

  def create_task(coro):
      task = asyncio.create_task(coro)
      BACKGROUND_TASKS.add(task)
      task.add_done_callback(BACKGROUND_TASKS.discard)
      return task
  \<close>
  A task belongs to the loop that created it, is pending until it finishes, and keeps
  the callbacks to call when it is done. Finishing a task (with a result, an exception
  or by cancellation) does not call them: it queues each with \<^verbatim>\<open>loop.call_soon\<close>, and
  the loop calls what is queued on its next iteration. \<^verbatim>\<open>add_done_callback\<close> on a task
  that is already done queues the callback at once.
\<close>

datatype 'a task_state = Pending | Succeeded 'a | Failed exn | Cancelled

datatype callback = RegistryDiscard | UserCallback nat

record 'a task =
  task_loop :: loop
  task_coro :: "'a coroutine"
  task_state :: "'a task_state"
  done_callbacks :: "callback list"

record 'a world =
  the_host :: host
  tasks :: "nat \<rightharpoonup> 'a task"
  next_task :: nat
  ready :: "(loop \<times> callback \<times> nat) list"
  BACKGROUND_TASKS :: "nat set"

definition asyncio_create_task :: "'a world \<Rightarrow> thread \<Rightarrow> 'a coroutine \<Rightarrow> exn + (nat \<times> 'a world)" where
  "asyncio_create_task w t c =
     (case get_running_loop (the_host w) t of
        Inl e \<Rightarrow> Inl e
      | Inr l \<Rightarrow>
          (let tid = next_task w
           in Inr (tid,
                w\<lparr>tasks := (tasks w)(tid \<mapsto>
                     \<lparr>task_loop = l, task_coro = c, task_state = Pending, done_callbacks = []\<rparr>),
                  next_task := Suc tid\<rparr>)))"

definition add_done_callback :: "nat \<Rightarrow> callback \<Rightarrow> 'a world \<Rightarrow> 'a world" where
  "add_done_callback tid cb w =
     (case tasks w tid of
        None \<Rightarrow> w
      | Some tk \<Rightarrow>
          (if task_state tk = Pending
           then w\<lparr>tasks := (tasks w)(tid \<mapsto> tk\<lparr>done_callbacks := done_callbacks tk @ [cb]\<rparr>)\<rparr>
           else w\<lparr>ready := ready w @ [(task_loop tk, cb, tid)]\<rparr>))"

definition create_task :: "'a world \<Rightarrow> thread \<Rightarrow> 'a coroutine \<Rightarrow> exn + (nat \<times> 'a world)" where
  "create_task w t coro =
     (case asyncio_create_task w t coro of
        Inl e \<Rightarrow> Inl e
      | Inr (task, w1) \<Rightarrow>
          (let w2 = w1\<lparr>BACKGROUND_TASKS := insert task (BACKGROUND_TASKS w1)\<rparr>;
               w3 = add_done_callback task RegistryDiscard w2
           in Inr (task, w3)))"

text \<open>The host's side: a task finishes, a task is cancelled, a loop runs one iteration.\<close>

definition finish :: "nat \<Rightarrow> 'a task_state \<Rightarrow> 'a world \<Rightarrow> 'a world" where
  "finish tid st w =
     (case tasks w tid of
        None \<Rightarrow> w
      | Some tk \<Rightarrow>
          (if task_state tk = Pending \<and> st \<noteq> Pending
           then w\<lparr>tasks := (tasks w)(tid \<mapsto> tk\<lparr>task_state := st, done_callbacks := []\<rparr>),
                  ready := ready w @ map (\<lambda>cb. (task_loop tk, cb, tid)) (done_callbacks tk)\<rparr>
           else w))"

definition terminal_of :: "'a outcome \<Rightarrow> 'a task_state" where
  "terminal_of r =
     (case r of
        Returned v \<Rightarrow> Succeeded v
      | Raised e \<Rightarrow> (if exc_class e = CancelledError then Cancelled else Failed e)
      | Hangs \<Rightarrow> Pending)"

definition complete :: "nat \<Rightarrow> 'a world \<Rightarrow> 'a world" where
  "complete tid w =
     (case tasks w tid of
        None \<Rightarrow> w
      | Some tk \<Rightarrow> finish tid (terminal_of (behaviour (task_coro tk))) w)"

definition cancel :: "nat \<Rightarrow> 'a world \<Rightarrow> 'a world" where
  "cancel tid w = finish tid Cancelled w"

fun run_callback :: "callback \<Rightarrow> nat \<Rightarrow> 'a world \<Rightarrow> 'a world" where
  "run_callback RegistryDiscard tid w = w\<lparr>BACKGROUND_TASKS := BACKGROUND_TASKS w - {tid}\<rparr>"
| "run_callback (UserCallback n) tid w = w"

fun run_callbacks :: "(loop \<times> callback \<times> nat) list \<Rightarrow> 'a world \<Rightarrow> 'a world" where
  "run_callbacks [] w = w"
| "run_callbacks ((l, cb, tid) # q) w = run_callbacks q (run_callback cb tid w)"

definition run_once :: "loop \<Rightarrow> 'a world \<Rightarrow> 'a world" where
  "run_once l w =
     run_callbacks (filter (\<lambda>(l', cb, tid). l' = l) (ready w))
       (w\<lparr>ready := filter (\<lambda>(l', cb, tid). l' \<noteq> l) (ready w)\<rparr>)"

text \<open>What can happen to the registry between a submission and a later moment.\<close>

datatype 'a op =
    Submit thread "'a coroutine"
  | Complete nat
  | Cancel nat
  | AddCallback nat nat
  | RunOnce loop

fun apply_op :: "'a op \<Rightarrow> 'a world \<Rightarrow> 'a world" where
  "apply_op (Submit t c) w = (case create_task w t c of Inl e \<Rightarrow> w | Inr (tid, w') \<Rightarrow> w')"
| "apply_op (Complete tid) w = complete tid w"
| "apply_op (Cancel tid) w = cancel tid w"
| "apply_op (AddCallback tid n) w = add_done_callback tid (UserCallback n) w"
| "apply_op (RunOnce l) w = run_once l w"

fun apply_ops :: "'a op list \<Rightarrow> 'a world \<Rightarrow> 'a world" where
  "apply_ops [] w = w"
| "apply_ops (x # xs) w = apply_ops xs (apply_op x w)"

definition is_pending :: "'a world \<Rightarrow> nat \<Rightarrow> bool" where
  "is_pending w tid = (case tasks w tid of None \<Rightarrow> False | Some tk \<Rightarrow> task_state tk = Pending)"

definition loop_of :: "'a world \<Rightarrow> nat \<Rightarrow> loop option" where
  "loop_of w tid = map_option task_loop (tasks w tid)"

definition registered_ok :: "'a world \<Rightarrow> nat \<Rightarrow> bool" where
  "registered_ok w tid =
     (case tasks w tid of
        None \<Rightarrow> False
      | Some tk \<Rightarrow>
          (if task_state tk = Pending
           then RegistryDiscard \<in> set (done_callbacks tk)
           else (task_loop tk, RegistryDiscard, tid) \<in> set (ready w)))"

definition registry_inv :: "'a world \<Rightarrow> bool" where
  "registry_inv w = (\<forall>tid \<in> BACKGROUND_TASKS w. registered_ok w tid)"

section \<open>expose_sync_method and ExposeSyncMethodsMixin\<close>

text \<open>
  \<^verbatim>\<open>
  def expose_sync_method(name):
      def decorator(async_method):
          @functools.wraps(async_method)
          def sync_wrapper(*args, **kwargs):
              coro = async_method(*args, **kwargs)
              return run_sync(coro)
          async_method._sync_wrapper = sync_wrapper
          async_method._sync_name = name
          return async_method
      return decorator
  \<close>
  A function object is its code (\<open>body\<close>: calling an \<^verbatim>\<open>async def\<close> on the instance and
  its arguments makes a coroutine) and the two attributes the decorator attaches. The
  wrapper closes over the function object \<open>async_method\<close>, so it is represented by the
  code it calls.
\<close>

datatype ('s, 'x, 'a) sync_wrapper = SyncWrapper (wrapped: "'s \<Rightarrow> 'x \<Rightarrow> 'a coroutine")

datatype ('s, 'x, 'a) func =
  Func (body: "'s \<Rightarrow> 'x \<Rightarrow> 'a coroutine")
       (sync_wrapper_attr: "('s, 'x, 'a) sync_wrapper option")
       (sync_name_attr: "string option")

definition async_def :: "('s \<Rightarrow> 'x \<Rightarrow> 'a coroutine) \<Rightarrow> ('s, 'x, 'a) func" where
  "async_def b = Func b None None"

definition expose_sync_method :: "string \<Rightarrow> ('s, 'x, 'a) func \<Rightarrow> ('s, 'x, 'a) func" where
  "expose_sync_method name async_method =
     Func (body async_method) (Some (SyncWrapper (body async_method))) (Some name)"

text \<open>
  \<^verbatim>\<open>
  def __init_subclass__(cls, **kwargs):
      super().__init_subclass__(**kwargs)
      for method in list(cls.__dict__.values()):
          if callable(method) and hasattr(method, "_sync_name"):
              sync_method_name = method._sync_name
              setattr(cls, sync_method_name, method._sync_wrapper)
  \<close>
  The namespace of a class is an association list in definition order. A member is an
  \<^verbatim>\<open>async def\<close> function, an installed wrapper, or something that is not callable.
  The loop runs over a copy of the values taken before the first \<^verbatim>\<open>setattr\<close>;
  \<^verbatim>\<open>setattr\<close> replaces the value of a name that exists and adds a name that does not.
\<close>

datatype ('s, 'x, 'a) member =
    AsyncFunction "('s, 'x, 'a) func"
  | SyncFunction "('s, 'x, 'a) sync_wrapper"
  | NonCallable

type_synonym ('s, 'x, 'a) cls = "(string \<times> ('s, 'x, 'a) member) list"

fun setattr :: "string \<Rightarrow> 'v \<Rightarrow> (string \<times> 'v) list \<Rightarrow> (string \<times> 'v) list" where
  "setattr n v [] = [(n, v)]"
| "setattr n v ((k, x) # d) = (if k = n then (k, v) # d else (k, x) # setattr n v d)"

definition getattr :: "(string \<times> 'v) list \<Rightarrow> string \<Rightarrow> 'v option" where
  "getattr d n = map_of d n"

fun install :: "('s, 'x, 'a) member list \<Rightarrow> ('s, 'x, 'a) cls \<Rightarrow> exn + ('s, 'x, 'a) cls" where
  "install [] cls = Inr cls"
| "install (AsyncFunction method # ms) cls =
     (case sync_name_attr method of
        None \<Rightarrow> install ms cls
      | Some sync_method_name \<Rightarrow>
          (case sync_wrapper_attr method of
             None \<Rightarrow> Inl (Exn AttributeError ''_sync_wrapper'')
           | Some w \<Rightarrow> install ms (setattr sync_method_name (SyncFunction w) cls)))"
| "install (m # ms) cls = install ms cls"

definition init_subclass :: "('s, 'x, 'a) cls \<Rightarrow> exn + ('s, 'x, 'a) cls" where
  "init_subclass cls = install (map snd cls) cls"

text \<open>The twin names a class declares, in definition order.\<close>

fun twin_names :: "('s, 'x, 'a) member list \<Rightarrow> string list" where
  "twin_names [] = []"
| "twin_names (AsyncFunction method # ms) =
     (case sync_name_attr method of None \<Rightarrow> twin_names ms | Some n \<Rightarrow> n # twin_names ms)"
| "twin_names (m # ms) = twin_names ms"

text \<open>
  The wrapper that the installation leaves under a name: the one of the last member, in
  definition order, that declares this name (a later \<^verbatim>\<open>setattr\<close> overwrites an earlier
  one).
\<close>

fun twin_for :: "('s, 'x, 'a) member list \<Rightarrow> string \<Rightarrow> ('s, 'x, 'a) sync_wrapper option" where
  "twin_for [] n = None"
| "twin_for (AsyncFunction method # ms) n =
     (case twin_for ms n of
        Some w \<Rightarrow> Some w
      | None \<Rightarrow> (if sync_name_attr method = Some n then sync_wrapper_attr method else None))"
| "twin_for (m # ms) n = twin_for ms n"

text \<open>
  Calling \<^verbatim>\<open>instance.name(x)\<close> on thread \<open>t\<close>: an \<^verbatim>\<open>async def\<close> answers with a
  coroutine and runs nothing; an installed wrapper makes the coroutine and passes it to
  \<open>run_sync\<close>. Awaiting what the call answered, in scheduled code: a coroutine is
  driven by the scheduler, anything else is a \<^verbatim>\<open>TypeError\<close>.
\<close>

datatype 'a pyvalue = Awaitable "'a coroutine" | Plain 'a

definition call_method ::
  "('s, 'x, 'a) cls \<Rightarrow> string \<Rightarrow> 's \<Rightarrow> 'x \<Rightarrow> host \<Rightarrow> thread \<Rightarrow> 'a pyvalue outcome \<times> host" where
  "call_method cls n self x h t =
     (case getattr cls n of
        None \<Rightarrow> (Raised (Exn AttributeError n), h)
      | Some NonCallable \<Rightarrow> (Raised (Exn TypeError ''object is not callable''), h)
      | Some (AsyncFunction f) \<Rightarrow> (Returned (Awaitable (body f self x)), h)
      | Some (SyncFunction w) \<Rightarrow>
          (case run_sync h t (wrapped w self x) of
             (Returned v, h') \<Rightarrow> (Returned (Plain v), h')
           | (Raised e, h') \<Rightarrow> (Raised e, h')
           | (Hangs, h') \<Rightarrow> (Hangs, h')))"

definition await_value :: "host \<Rightarrow> thread \<Rightarrow> 'a pyvalue \<Rightarrow> 'a outcome \<times> host" where
  "await_value h t v =
     (case v of
        Awaitable c \<Rightarrow> await_under_scheduler h t c
      | Plain u \<Rightarrow> (Raised (Exn TypeError ''object can't be used in 'await' expression''), h))"

definition await_method ::
  "('s, 'x, 'a) cls \<Rightarrow> string \<Rightarrow> 's \<Rightarrow> 'x \<Rightarrow> host \<Rightarrow> thread \<Rightarrow> 'a outcome \<times> host" where
  "await_method cls n self x h t =
     (case call_method cls n self x h t of
        (Returned v, h') \<Rightarrow> await_value h' t v
      | (Raised e, h') \<Rightarrow> (Raised e, h')
      | (Hangs, h') \<Rightarrow> (Hangs, h'))"

section \<open>Concrete hosts and inputs\<close>

text \<open>
  \<open>refusal\<close> is the error of \<open>asyncio_run\<close> on a thread that hosts a running loop.
  \<open>host0\<close> has one thread and no loop; in \<open>host1\<close> thread \<open>0\<close> hosts the running loop
  \<open>7\<close>; \<open>host2\<close> is \<open>host1\<close> after a first call went through the default executor
  of that loop, whose pool has the idle thread \<open>1\<close>. \<open>boom\<close> is a blocking function that
  raises \<^verbatim>\<open>ValueError("boom")\<close>; \<open>exhausted\<close> raises \<^verbatim>\<open>StopIteration\<close>, as
  \<^verbatim>\<open>next\<close> does on an iterator that is exhausted; \<open>set_twice\<close> raises
  \<^verbatim>\<open>concurrent.futures.InvalidStateError\<close>, as setting the result of a finished pool
  future does.
\<close>

definition refusal :: exn where
  "refusal = Exn RuntimeError ''asyncio.run() cannot be called from a running event loop''"

definition host0 :: host where
  "host0 = \<lparr>running = [], next_thread = 1, workers = [], default_pool = [], trace = []\<rparr>"

definition host1 :: host where
  "host1 = \<lparr>running = [(0, 7)], next_thread = 1, workers = [], default_pool = [],
             trace = []\<rparr>"





text \<open>
  \<open>world0\<close> is \<open>host1\<close> with no task; \<open>world1\<close> is \<open>world0\<close> after one submission from
  thread \<open>0\<close>. \<open>Foo\<close> is the class of the docstring with \<open>foo_async(x) = x + 1\<close> and the
  twin \<open>foo\<close>; in \<open>FooErr\<close> the method raises \<^verbatim>\<open>RuntimeError("boom")\<close>; \<open>Clash\<close> declares
  the twin of \<open>a_async\<close> under the name of its second method, and \<open>Plain_b\<close> is \<open>Clash\<close>
  without the declarations.
\<close>

definition world0 :: "int world" where
  "world0 = \<lparr>the_host = host1, tasks = Map.empty, next_task = 0, ready = [],
             BACKGROUND_TASKS = {}\<rparr>"

definition world1 :: "int world" where
  "world1 = \<lparr>the_host = host1,
             tasks = [0 \<mapsto> \<lparr>task_loop = 7, task_coro = Coroutine (Returned 1),
                             task_state = Pending, done_callbacks = [RegistryDiscard]\<rparr>],
             next_task = 1, ready = [], BACKGROUND_TASKS = {0}\<rparr>"

definition incr :: "unit \<Rightarrow> int \<Rightarrow> int coroutine" where
  "incr self x = Coroutine (Returned (x + 1))"

definition dbl :: "unit \<Rightarrow> int \<Rightarrow> int coroutine" where
  "dbl self x = Coroutine (Returned (x * 2))"

definition fail_boom :: "unit \<Rightarrow> int \<Rightarrow> int coroutine" where
  "fail_boom self x = Coroutine (Raised (Exn RuntimeError ''boom''))"

definition Foo :: "(unit, int, int) cls" where
  "Foo = [(''foo_async'', AsyncFunction (expose_sync_method ''foo'' (async_def incr)))]"

definition FooErr :: "(unit, int, int) cls" where
  "FooErr = [(''foo_async'', AsyncFunction (expose_sync_method ''foo'' (async_def fail_boom)))]"

definition Clash :: "(unit, int, int) cls" where
  "Clash = [(''a_async'', AsyncFunction (expose_sync_method ''b_async'' (async_def incr))),
            (''b_async'', AsyncFunction (expose_sync_method ''b'' (async_def dbl)))]"

definition Plain_b :: "(unit, int, int) cls" where
  "Plain_b = [(''a_async'', AsyncFunction (async_def incr)),
              (''b_async'', AsyncFunction (async_def dbl))]"

section \<open>Facts about the host\<close>

lemma trace_emit [simp]: "trace (emit es h) = trace h @ es"
  and running_emit [simp]: "running (emit es h) = running h"
  and workers_emit [simp]: "workers (emit es h) = workers h"
  and next_thread_emit [simp]: "next_thread (emit es h) = next_thread h"
  and default_pool_emit [simp]: "default_pool (emit es h) = default_pool h"
  by (simp_all add: emit_def)

lemma scheduler_active_emit [simp]: "scheduler_active (emit es h) t = scheduler_active h t"
  by (simp add: scheduler_active_def)

lemma events_since_append [simp]: "trace h' = trace h @ es \<Longrightarrow> events_since h h' = es"
  by (simp add: events_since_def)

lemma asyncio_run_refused:
  "scheduler_active h t \<Longrightarrow>
   asyncio_run h t c =
     (Raised (Exn RuntimeError ''asyncio.run() cannot be called from a running event loop''), h)"
  by (simp add: asyncio_run_def)

lemma asyncio_run_fresh:
  "\<not> scheduler_active h t \<Longrightarrow>
   asyncio_run h t c =
     (behaviour c,
      emit ([LoopStarted t, Executed t] @ (if behaviour c = Hangs then [] else [LoopClosed t])) h)"
  by (cases "behaviour c") (simp_all add: asyncio_run_def emit_def)

lemma get_running_loop_Inl:
  "get_running_loop h t = Inl e \<longleftrightarrow>
     \<not> scheduler_active h t \<and> e = Exn RuntimeError ''no running event loop''"
  by (auto simp: get_running_loop_def scheduler_active_def split: option.splits)

lemma get_running_loop_Inr:
  "get_running_loop h t = Inr l \<longleftrightarrow> map_of (running h) t = Some l"
  by (auto simp: get_running_loop_def split: option.splits)

lemma probe_loop_is_running:
  "get_running_loop h t = Inr l \<Longrightarrow> is_running h l"
  by (auto simp: get_running_loop_Inr is_running_def dest!: map_of_SomeD intro!: image_eqI[where x="(t,l)"])

lemma try_block_no_scheduler:
  "\<not> scheduler_active h t \<Longrightarrow>
   try_block h t c = (Raised (Exn RuntimeError ''no running event loop''), h)"
  by (simp add: try_block_def get_running_loop_def scheduler_active_def)

lemma run_sync_no_scheduler:
  "\<not> scheduler_active h t \<Longrightarrow>
   run_sync h t c = asyncio_run (emit [Took FallbackArm] h) t c"
  by (simp add: run_sync_def try_block_no_scheduler isinstance_RuntimeError_def)

lemma run_sync_no_scheduler_result:
  assumes idle: "\<not> scheduler_active h t"
  shows "run_sync h t c =
     (behaviour c,
      emit ([Took FallbackArm, LoopStarted t, Executed t] @
            (if behaviour c = Hangs then [] else [LoopClosed t])) h)"
proof -
  have "\<not> scheduler_active (emit [Took FallbackArm] h) t"
    using idle by simp
  from asyncio_run_fresh [OF this, of c] show ?thesis
    unfolding run_sync_no_scheduler [OF idle] by (simp add: emit_def)
qed

lemma try_block_scheduler:
  assumes act: "scheduler_active h t"
  shows "try_block h t c = run_in_pool (emit [Took IsolatedArm] h) c"
proof -
  from act obtain l where l: "map_of (running h) t = Some l"
    by (auto simp: scheduler_active_def)
  then have "get_running_loop h t = Inr l"
    by (simp add: get_running_loop_Inr)
  moreover from this have "is_running h l"
    by (rule probe_loop_is_running)
  ultimately show ?thesis
    by (simp add: try_block_def)
qed

lemma fresh_thread_idle:
  "threads_exist h \<Longrightarrow> \<not> scheduler_active h (next_thread h)"
  by (force simp: threads_exist_def scheduler_active_def list_all_iff map_of_eq_None_iff)

lemma active_thread_exists:
  "threads_exist h \<Longrightarrow> scheduler_active h t \<Longrightarrow> t < next_thread h"
  by (auto simp: threads_exist_def scheduler_active_def list_all_iff dest!: map_of_SomeD)

lemma fresh_not_worker:
  "threads_exist h \<Longrightarrow> next_thread h \<notin> set (workers h)"
  by (auto simp: threads_exist_def list_all_iff)

lemma run_in_pool_result:
  assumes ok: "threads_exist h"
  shows "run_in_pool h c =
     (behaviour c,
      (if behaviour c = Hangs
       then emit [ThreadSpawned (next_thread h), LoopStarted (next_thread h), Executed (next_thread h)]
              (h\<lparr>next_thread := Suc (next_thread h), workers := next_thread h # workers h\<rparr>)
       else emit [ThreadSpawned (next_thread h), LoopStarted (next_thread h), Executed (next_thread h),
                  LoopClosed (next_thread h), ThreadJoined (next_thread h)]
              (h\<lparr>next_thread := Suc (next_thread h)\<rparr>)))"
proof -
  let ?w = "next_thread h"
  let ?h1 = "emit [ThreadSpawned ?w] (h\<lparr>next_thread := Suc ?w, workers := ?w # workers h\<rparr>)"
  have idle: "\<not> scheduler_active ?h1 ?w"
    using fresh_thread_idle [OF ok] by (simp add: scheduler_active_def)
  have nw: "removeAll ?w (workers h) = workers h"
    using fresh_not_worker [OF ok] by simp
  have pool: "run_in_pool h c =
          (case asyncio_run ?h1 ?w c of (Hangs, h2) \<Rightarrow> (Hangs, h2) | (r, h2) \<Rightarrow> (r, join ?w h2))"
    by (simp add: run_in_pool_def spawn_def Let_def)
  show ?thesis
    unfolding pool asyncio_run_fresh [OF idle]
    by (cases "behaviour c") (simp_all add: join_def emit_def nw)
qed

lemma threads_exist_emit [simp]: "threads_exist (emit es h) = threads_exist h"
  by (simp add: threads_exist_def)

lemma try_block_isolated:
  assumes ok: "threads_exist h" and act: "scheduler_active h t"
  shows "try_block h t c =
     (behaviour c,
      (if behaviour c = Hangs
       then emit [Took IsolatedArm, ThreadSpawned (next_thread h), LoopStarted (next_thread h),
                  Executed (next_thread h)]
              (h\<lparr>next_thread := Suc (next_thread h), workers := next_thread h # workers h\<rparr>)
       else emit [Took IsolatedArm, ThreadSpawned (next_thread h), LoopStarted (next_thread h),
                  Executed (next_thread h), LoopClosed (next_thread h), ThreadJoined (next_thread h)]
              (h\<lparr>next_thread := Suc (next_thread h)\<rparr>)))"
proof -
  have "threads_exist (emit [Took IsolatedArm] h)"
    using ok by simp
  from run_in_pool_result [OF this, of c] show ?thesis
    unfolding try_block_scheduler [OF act] by (simp add: emit_def)
qed

lemma run_sync_isolated:
  assumes ok: "threads_exist h" and act: "scheduler_active h t"
  shows "run_sync h t c =
     (case behaviour c of
        Hangs \<Rightarrow>
          (Hangs,
           emit [Took IsolatedArm, ThreadSpawned (next_thread h), LoopStarted (next_thread h),
                 Executed (next_thread h)]
             (h\<lparr>next_thread := Suc (next_thread h), workers := next_thread h # workers h\<rparr>))
      | Returned v \<Rightarrow>
          (Returned v,
           emit [Took IsolatedArm, ThreadSpawned (next_thread h), LoopStarted (next_thread h),
                 Executed (next_thread h), LoopClosed (next_thread h), ThreadJoined (next_thread h)]
             (h\<lparr>next_thread := Suc (next_thread h)\<rparr>))
      | Raised e \<Rightarrow>
          (if isinstance_RuntimeError e
           then (Raised refusal,
             emit [Took IsolatedArm, ThreadSpawned (next_thread h), LoopStarted (next_thread h),
                 Executed (next_thread h), LoopClosed (next_thread h), ThreadJoined (next_thread h),
                 Took FallbackArm]
             (h\<lparr>next_thread := Suc (next_thread h)\<rparr>))
           else (Raised e,
             emit [Took IsolatedArm, ThreadSpawned (next_thread h), LoopStarted (next_thread h),
                 Executed (next_thread h), LoopClosed (next_thread h), ThreadJoined (next_thread h)]
             (h\<lparr>next_thread := Suc (next_thread h)\<rparr>))))"
proof (cases "behaviour c")
  case (Returned v)
  then show ?thesis
    by (simp add: run_sync_def try_block_isolated [OF ok act])
next
  case Hangs
  then show ?thesis
    by (simp add: run_sync_def try_block_isolated [OF ok act])
next
  case (Raised e)
  have act': "scheduler_active (emit [Took FallbackArm] (emit [Took IsolatedArm, ThreadSpawned (next_thread h), LoopStarted (next_thread h),
                  Executed (next_thread h), LoopClosed (next_thread h), ThreadJoined (next_thread h)]
              (h\<lparr>next_thread := Suc (next_thread h)\<rparr>))) t"
    using act by (simp add: scheduler_active_def)
  show ?thesis
    using Raised
    by (simp add: run_sync_def try_block_isolated [OF ok act] asyncio_run_refused [OF act'] refusal_def)
qed

section \<open>Which arm a call takes\<close>

lemma asyncio_run_trace:
  "\<exists>es. trace (snd (asyncio_run h t c)) = trace h @ es \<and> Took a \<notin> set es"
  by (cases "scheduler_active h t"; cases "behaviour c") (simp_all add: asyncio_run_def Let_def)

lemma run_in_pool_trace:
  "\<exists>es. trace (snd (run_in_pool h c)) = trace h @ es \<and> Took a \<notin> set es"
proof -
  let ?w = "next_thread h"
  let ?h1 = "emit [ThreadSpawned ?w] (h\<lparr>next_thread := Suc ?w, workers := ?w # workers h\<rparr>)"
  obtain r h2 where run: "asyncio_run ?h1 ?w c = (r, h2)"
    by (cases "asyncio_run ?h1 ?w c")
  from asyncio_run_trace [of ?h1 ?w c a] run
  obtain es where es: "trace h2 = trace h @ ThreadSpawned ?w # es" "Took a \<notin> set es"
    by auto
  have "run_in_pool h c = (case r of Hangs \<Rightarrow> (Hangs, h2) | _ \<Rightarrow> (r, join ?w h2))"
    by (simp add: run_in_pool_def spawn_def Let_def run split: outcome.splits)
  then show ?thesis
    using es by (cases r) (simp_all add: join_def)
qed

lemma run_sync_trace:
  "\<exists>es. trace (snd (run_sync h t c)) = trace h @ es \<and> Took InlineElseArm \<notin> set es"
proof (cases "scheduler_active h t")
  case False
  then show ?thesis
    by (simp add: run_sync_no_scheduler_result)
next
  case True
  obtain r h1 where tb: "run_in_pool (emit [Took IsolatedArm] h) c = (r, h1)"
    by (cases "run_in_pool (emit [Took IsolatedArm] h) c")
  from run_in_pool_trace [of "emit [Took IsolatedArm] h" c InlineElseArm] tb
  obtain es where es: "trace h1 = trace h @ Took IsolatedArm # es" "Took InlineElseArm \<notin> set es"
    by auto
  obtain r2 h2 where fb: "asyncio_run (emit [Took FallbackArm] h1) t c = (r2, h2)"
    by (cases "asyncio_run (emit [Took FallbackArm] h1) t c")
  from asyncio_run_trace [of "emit [Took FallbackArm] h1" t c InlineElseArm] fb es
  obtain es2 where es2: "trace h2 = trace h @ Took IsolatedArm # es @ Took FallbackArm # es2"
      "Took InlineElseArm \<notin> set es2"
    by auto
  show ?thesis
    using es es2
    by (cases r) (simp_all add: run_sync_def try_block_scheduler [OF True] tb fb)
qed

lemma run_sync_first_event:
  "hd (events_since h (snd (run_sync h t c))) =
     (if scheduler_active h t then Took IsolatedArm else Took FallbackArm)"
proof (cases "scheduler_active h t")
  case False
  then show ?thesis
    by (simp add: run_sync_no_scheduler_result)
next
  case True
  obtain r h1 where tb: "run_in_pool (emit [Took IsolatedArm] h) c = (r, h1)"
    by (cases "run_in_pool (emit [Took IsolatedArm] h) c")
  from run_in_pool_trace [of "emit [Took IsolatedArm] h" c InlineElseArm] tb
  obtain es where es: "trace h1 = trace h @ Took IsolatedArm # es"
    by auto
  obtain r2 h2 where fb: "asyncio_run (emit [Took FallbackArm] h1) t c = (r2, h2)"
    by (cases "asyncio_run (emit [Took FallbackArm] h1) t c")
  from asyncio_run_trace [of "emit [Took FallbackArm] h1" t c InlineElseArm] fb es
  obtain es2 where es2: "trace h2 = trace h @ Took IsolatedArm # es @ Took FallbackArm # es2"
    by auto
  show ?thesis
    using es es2 True
    by (cases r) (simp_all add: run_sync_def try_block_scheduler [OF True] tb fb)
qed

text \<open>
  Claim C10. In \<open>run_sync\<close> the arm taken when a loop is obtained that reports itself as
  not running is never taken: the probe either answers with a loop that is running or
  raises a \<^verbatim>\<open>RuntimeError\<close>, no call logs \<open>Took InlineElseArm\<close>, and the first thing a
  call does is enter the isolated-thread arm when a scheduler is active on the calling
  thread and the handler's arm when none is. The loop table of the host is the only
  source of both answers of the probe.
\<close>

theorem run_sync_else_arm_unreachable:
  "((\<exists>l. get_running_loop h t = Inr l \<and> is_running h l) \<or>
    (\<exists>e. get_running_loop h t = Inl e \<and> isinstance_RuntimeError e)) \<and>
   Took InlineElseArm \<notin> set (events_since h (snd (run_sync h t c))) \<and>
   hd (events_since h (snd (run_sync h t c))) =
     (if scheduler_active h t then Took IsolatedArm else Took FallbackArm)"
proof -
  have probe: "(\<exists>l. get_running_loop h t = Inr l \<and> is_running h l) \<or>
    (\<exists>e. get_running_loop h t = Inl e \<and> isinstance_RuntimeError e)"
  proof (cases "get_running_loop h t")
    case (Inl e)
    then show ?thesis
      by (simp add: get_running_loop_Inl isinstance_RuntimeError_def)
  next
    case (Inr l)
    then show ?thesis
      by (simp add: probe_loop_is_running)
  qed
  from run_sync_trace [of h t c] have "Took InlineElseArm \<notin> set (events_since h (snd (run_sync h t c)))"
    by auto
  with probe show ?thesis
    by (simp add: run_sync_first_event)
qed

theorem run_sync_else_arm_unreachable_witness:
  "get_running_loop host1 0 = Inr 7 \<and> is_running host1 7 \<and>
   events_since host1 (snd (run_sync host1 0 (Coroutine (Returned (42::int))))) =
     [Took IsolatedArm, ThreadSpawned 1, LoopStarted 1, Executed 1, LoopClosed 1, ThreadJoined 1] \<and>
   Took InlineElseArm \<notin> set (events_since host1 (snd (run_sync host1 0 (Coroutine (Returned (42::int))))))"
  using run_sync_else_arm_unreachable [of host1 0 "Coroutine (Returned (42::int))"]
  by (simp add: host1_def get_running_loop_def is_running_def run_sync_def try_block_def
      run_in_pool_def spawn_def join_def asyncio_run_def scheduler_active_def emit_def
      events_since_def Let_def)

section \<open>The bridge: results and threads\<close>

text \<open>
  The condition \<open>threads_exist\<close> on a host is kept by every call, and a call drives the
  unit of work exactly once, on one thread.
\<close>

lemma threads_exist_run_sync:
  assumes ok: "threads_exist h"
  shows "threads_exist (snd (run_sync h t c))"
proof (cases "scheduler_active h t")
  case False
  then show ?thesis
    using ok by (simp add: run_sync_no_scheduler_result)
next
  case True
  have grow: "threads_exist (h\<lparr>next_thread := Suc (next_thread h)\<rparr>)"
    "threads_exist (h\<lparr>next_thread := Suc (next_thread h), workers := next_thread h # workers h\<rparr>)"
    using ok by (auto simp: threads_exist_def list_all_iff)
  show ?thesis
    using grow
    by (cases "behaviour c") (simp_all add: run_sync_isolated [OF ok True])
qed

lemma run_sync_drives_once:
  assumes ok: "threads_exist h"
  shows "length (filter (\<lambda>ev. \<exists>u. ev = Executed u) (events_since h (snd (run_sync h t c)))) = 1"
proof (cases "scheduler_active h t")
  case False
  then show ?thesis
    by (simp add: run_sync_no_scheduler_result)
next
  case True
  show ?thesis
    by (cases "behaviour c") (simp_all add: run_sync_isolated [OF ok True])
qed

text \<open>
  Claim C1. A call of \<open>run_sync\<close> on a thread \<open>t\<close> that hosts a running scheduler never
  executes the unit of work on \<open>t\<close>. It starts a new thread, which is not \<open>t\<close> and hosts
  no scheduler, and runs the work there under a new loop; it comes back exactly when the
  work on that thread is over; and when it comes back the new thread has been joined and
  the set of live pool threads is what it was.
\<close>

theorem run_sync_reentrant_uses_isolated_thread:
  assumes ok: "threads_exist h" and act: "scheduler_active h t"
  shows "Executed t \<notin> set (events_since h (snd (run_sync h t c))) \<and>
         next_thread h \<noteq> t \<and>
         \<not> scheduler_active h (next_thread h) \<and>
         take 4 (events_since h (snd (run_sync h t c))) =
           [Took IsolatedArm, ThreadSpawned (next_thread h), LoopStarted (next_thread h),
            Executed (next_thread h)] \<and>
         (fst (run_sync h t c) = Hangs) = (behaviour c = Hangs) \<and>
         (fst (run_sync h t c) \<noteq> Hangs \<longrightarrow>
            take 2 (drop 4 (events_since h (snd (run_sync h t c)))) =
              [LoopClosed (next_thread h), ThreadJoined (next_thread h)] \<and>
            workers (snd (run_sync h t c)) = workers h)"
proof -
  have neq: "next_thread h \<noteq> t"
    using active_thread_exists [OF ok act] by simp
  have idle: "\<not> scheduler_active h (next_thread h)"
    by (rule fresh_thread_idle [OF ok])
  show ?thesis
  proof (cases "behaviour c")
    case (Returned v)
    then show ?thesis
      using neq idle by (simp add: run_sync_isolated [OF ok act])
  next
    case (Raised e)
    then show ?thesis
      using neq idle by (simp add: run_sync_isolated [OF ok act])
  next
    case Hangs
    then show ?thesis
      using neq idle by (simp add: run_sync_isolated [OF ok act])
  qed
qed

theorem run_sync_reentrant_uses_isolated_thread_witness:
  "threads_exist host1 \<and> scheduler_active host1 0 \<and>
   Executed 0 \<notin> set (events_since host1 (snd (run_sync host1 0 (Coroutine (Returned (42::int)))))) \<and>
   events_since host1 (snd (run_sync host1 0 (Coroutine (Returned (42::int))))) =
     [Took IsolatedArm, ThreadSpawned 1, LoopStarted 1, Executed 1, LoopClosed 1, ThreadJoined 1] \<and>
   workers (snd (run_sync host1 0 (Coroutine (Returned (42::int))))) = []"
proof -
  have ok: "threads_exist host1"
    by (simp add: host1_def threads_exist_def)
  have act: "scheduler_active host1 0"
    by (simp add: host1_def scheduler_active_def)
  have ev: "events_since host1 (snd (run_sync host1 0 (Coroutine (Returned (42::int))))) =
     [Took IsolatedArm, ThreadSpawned 1, LoopStarted 1, Executed 1, LoopClosed 1, ThreadJoined 1]"
    by (simp add: host1_def get_running_loop_def is_running_def run_sync_def try_block_def
      run_in_pool_def spawn_def join_def asyncio_run_def scheduler_active_def emit_def
      events_since_def Let_def)
  from run_sync_reentrant_uses_isolated_thread [OF ok act, of "Coroutine (Returned (42::int))"]
  show ?thesis
    using ok act ev by (simp add: host1_def)
qed

text \<open>
  Claim C2. When no scheduler is active on the calling thread and the unit of work ends
  with a value \<open>v\<close>, \<open>run_sync\<close> returns \<open>v\<close>, which is what awaiting the unit of work
  directly under a scheduler (of any host, on any thread) gives.
\<close>

theorem run_sync_no_scheduler_returns_value:
  assumes idle: "\<not> scheduler_active h t" and val: "behaviour c = Returned v"
  shows "fst (run_sync h t c) = Returned v \<and>
         fst (run_sync h t c) = fst (await_under_scheduler h' t' c)"
  using val by (simp add: run_sync_no_scheduler_result [OF idle] await_under_scheduler_def)

theorem run_sync_no_scheduler_returns_value_witness:
  "\<not> scheduler_active host0 0 \<and> behaviour (Coroutine (Returned (42::int))) = Returned 42 \<and>
   fst (run_sync host0 0 (Coroutine (Returned (42::int)))) = Returned 42 \<and>
   fst (await_under_scheduler host1 0 (Coroutine (Returned (42::int)))) = Returned 42"
proof -
  have idle: "\<not> scheduler_active host0 0"
    by (simp add: host0_def scheduler_active_def)
  have val: "behaviour (Coroutine (Returned (42::int))) = Returned 42"
    by simp
  from run_sync_no_scheduler_returns_value [OF idle val, of host1 0]
  show ?thesis
    using idle by (simp add: await_under_scheduler_def)
qed

text \<open>
  Claim C4. When the probe for a running loop fails, with the error \<open>e\<close>, that error is a
  \<^verbatim>\<open>RuntimeError\<close> and \<open>run_sync\<close> does not surface it: the call takes the handler's arm,
  starts a loop on the calling thread, executes the unit of work there and ends as the
  unit of work ends, starting no thread.
\<close>

theorem run_sync_detection_failure_falls_back:
  assumes probe: "get_running_loop h t = Inl e"
  shows "isinstance_RuntimeError e \<and>
         fst (run_sync h t c) = behaviour c \<and>
         events_since h (snd (run_sync h t c)) =
           [Took FallbackArm, LoopStarted t, Executed t] @
           (if behaviour c = Hangs then [] else [LoopClosed t]) \<and>
         workers (snd (run_sync h t c)) = workers h \<and>
         next_thread (snd (run_sync h t c)) = next_thread h"
proof -
  from probe have idle: "\<not> scheduler_active h t" and e: "e = Exn RuntimeError ''no running event loop''"
    by (simp_all add: get_running_loop_Inl)
  show ?thesis
    by (simp add: run_sync_no_scheduler_result [OF idle] e isinstance_RuntimeError_def)
qed

theorem run_sync_detection_failure_falls_back_witness:
  "get_running_loop host0 0 = Inl (Exn RuntimeError ''no running event loop'') \<and>
   fst (run_sync host0 0 (Coroutine (Returned (42::int)))) = Returned 42 \<and>
   events_since host0 (snd (run_sync host0 0 (Coroutine (Returned (42::int))))) =
     [Took FallbackArm, LoopStarted 0, Executed 0, LoopClosed 0]"
proof -
  have probe: "get_running_loop host0 0 = Inl (Exn RuntimeError ''no running event loop'')"
    by (simp add: host0_def get_running_loop_def)
  from run_sync_detection_failure_falls_back [OF probe, of "Coroutine (Returned (42::int))"]
  show ?thesis
    using probe by simp
qed

lemma run_sync_no_scheduler_propagates:
  "\<not> scheduler_active h t \<Longrightarrow> behaviour c = Raised e \<Longrightarrow> fst (run_sync h t c) = Raised e"
  by (simp add: run_sync_no_scheduler_result)

lemma run_sync_isolated_propagates:
  "threads_exist h \<Longrightarrow> scheduler_active h t \<Longrightarrow> behaviour c = Raised e \<Longrightarrow>
   \<not> isinstance_RuntimeError e \<Longrightarrow> fst (run_sync h t c) = Raised e"
  by (simp add: run_sync_isolated)

lemma run_sync_isolated_replaces_RuntimeError:
  "threads_exist h \<Longrightarrow> scheduler_active h t \<Longrightarrow> behaviour c = Raised e \<Longrightarrow>
   isinstance_RuntimeError e \<Longrightarrow> fst (run_sync h t c) = Raised refusal"
  by (simp add: run_sync_isolated)

text \<open>
  Claim C3 (errors of the unit of work reach the caller unmodified) holds on the path
  with no scheduler and, on the isolated-thread path, for every error that is not a
  \<^verbatim>\<open>RuntimeError\<close>: the three lemmas above. It fails for a \<^verbatim>\<open>RuntimeError\<close> on the
  isolated-thread path, where the handler meant for the probe also catches the error
  that \<^verbatim>\<open>future.result()\<close> re-raises: on \<open>host1\<close>, called from thread \<open>0\<close>, a unit of
  work that raises \<^verbatim>\<open>RuntimeError("boom")\<close> makes \<open>run_sync\<close> raise the refusal of
  \<^verbatim>\<open>asyncio.run\<close> instead.
\<close>

theorem run_sync_reentrant_RuntimeError_replaced:
  "threads_exist host1 \<and> scheduler_active host1 0 \<and>
   behaviour (Coroutine (Raised (Exn RuntimeError ''boom'')) :: int coroutine) =
     Raised (Exn RuntimeError ''boom'') \<and>
   fst (run_sync host1 0 (Coroutine (Raised (Exn RuntimeError ''boom'')) :: int coroutine)) =
     Raised (Exn RuntimeError ''asyncio.run() cannot be called from a running event loop'') \<and>
   events_since host1 (snd (run_sync host1 0 (Coroutine (Raised (Exn RuntimeError ''boom'')) :: int coroutine))) =
     [Took IsolatedArm, ThreadSpawned 1, LoopStarted 1, Executed 1, LoopClosed 1, ThreadJoined 1,
      Took FallbackArm]"
  by (simp add: host1_def get_running_loop_def is_running_def run_sync_def try_block_def
      run_in_pool_def spawn_def join_def asyncio_run_def scheduler_active_def emit_def
      events_since_def Let_def threads_exist_def isinstance_RuntimeError_def)

section \<open>The offloader\<close>

lemma get_event_loop_Inr:
  "get_event_loop h t = Inr l \<longleftrightarrow> map_of (running h) t = Some l"
  by (auto simp: get_event_loop_def split: option.splits)

lemma get_event_loop_scheduled:
  "scheduler_active h t \<longleftrightarrow> (\<exists>l. get_event_loop h t = Inr l)"
  by (auto simp: scheduler_active_def get_event_loop_Inr)


lemma run_async_scheduled:
  assumes lp: "get_event_loop h t = Inr l"
  shows "run_async h t func args =
           (copy_future_state (func args),
            emit [Called (fst (submit_default h l))] (snd (submit_default h l)))"
proof -
  have "run_async h t func args = wrapper h l func args"
    using lp by (simp add: run_async_def)
  then show ?thesis
    by (cases "copy_future_state (func args)")
       (simp_all add: wrapper_def run_in_executor_def split_beta)
qed


lemma copy_future_state_not_Raised:
  "exc_class e = StopIteration \<or> exc_class e = FuturesCancelledError \<or>
   exc_class e = FuturesInvalidStateError \<Longrightarrow> copy_future_state (Raised e) \<noteq> Raised e"
  by (cases e) (auto simp: copy_future_state_def convert_future_exc_def)

lemma run_async_not_reraised:
  assumes "get_event_loop h t = Inr l" and "func args = Raised e"
    and "exc_class e = StopIteration \<or> exc_class e = FuturesCancelledError \<or>
         exc_class e = FuturesInvalidStateError"
  shows "fst (run_async h t func args) \<noteq> Raised e"
  using assms(2) copy_future_state_not_Raised [OF assms(3)]
  by (simp add: run_async_scheduled [OF assms(1)])



section \<open>The registry of background tasks\<close>

lemma run_callback_tasks [simp]: "tasks (run_callback cb tid w) = tasks w"
  by (cases cb) simp_all

lemma run_callback_ready [simp]: "ready (run_callback cb tid w) = ready w"
  by (cases cb) simp_all

lemma run_callbacks_tasks [simp]: "tasks (run_callbacks q w) = tasks w"
  by (induction q w rule: run_callbacks.induct) simp_all

lemma run_callbacks_ready [simp]: "ready (run_callbacks q w) = ready w"
  by (induction q w rule: run_callbacks.induct) simp_all

lemma run_callbacks_registry:
  "BACKGROUND_TASKS (run_callbacks q w) =
     BACKGROUND_TASKS w - {tid. \<exists>l. (l, RegistryDiscard, tid) \<in> set q}"
proof (induction q w rule: run_callbacks.induct)
  case (1 w)
  then show ?case by simp
next
  case (2 l cb tid q w)
  then show ?case by (cases cb) auto
qed

lemma run_once_fields [simp]:
  "tasks (run_once l w) = tasks w"
  "ready (run_once l w) = filter (\<lambda>(l', cb, tid). l' \<noteq> l) (ready w)"
  by (simp_all add: run_once_def)

lemma run_once_registry:
  "BACKGROUND_TASKS (run_once l w) =
     BACKGROUND_TASKS w - {tid. (l, RegistryDiscard, tid) \<in> set (ready w)}"
  by (auto simp: run_once_def run_callbacks_registry)

lemma is_pending_run_once [simp]: "is_pending (run_once l w) tid = is_pending w tid"
  by (simp add: is_pending_def)

lemma loop_of_run_once [simp]: "loop_of (run_once l w) tid = loop_of w tid"
  by (simp add: loop_of_def)

lemma registry_inv_run_once:
  assumes inv: "registry_inv w"
  shows "registry_inv (run_once l w)"
  unfolding registry_inv_def
proof
  fix tid assume "tid \<in> BACKGROUND_TASKS (run_once l w)"
  then have reg: "tid \<in> BACKGROUND_TASKS w" and keep: "(l, RegistryDiscard, tid) \<notin> set (ready w)"
    by (simp_all add: run_once_registry)
  from inv reg have "registered_ok w tid"
    by (simp add: registry_inv_def)
  with keep show "registered_ok (run_once l w) tid"
    by (auto simp: registered_ok_def split: option.splits if_splits)
qed

lemma run_once_settles:
  assumes inv: "registry_inv w"
    and reg: "tid \<in> BACKGROUND_TASKS (run_once l w)"
    and lp: "loop_of w tid = Some l"
  shows "is_pending w tid"
proof -
  from reg have r: "tid \<in> BACKGROUND_TASKS w" and keep: "(l, RegistryDiscard, tid) \<notin> set (ready w)"
    by (simp_all add: run_once_registry)
  from inv r have "registered_ok w tid"
    by (simp add: registry_inv_def)
  with keep lp show ?thesis
    by (auto simp: registered_ok_def is_pending_def loop_of_def split: option.splits if_splits)
qed

lemma registry_inv_finish:
  assumes inv: "registry_inv w"
  shows "registry_inv (finish tid st w)"
  unfolding registry_inv_def
proof
  fix tid' assume "tid' \<in> BACKGROUND_TASKS (finish tid st w)"
  then have "tid' \<in> BACKGROUND_TASKS w"
    by (simp add: finish_def split: option.splits if_splits)
  with inv have "registered_ok w tid'"
    by (simp add: registry_inv_def)
  then show "registered_ok (finish tid st w) tid'"
    by (auto simp: registered_ok_def finish_def split: option.splits if_splits)
qed

lemma finish_not_pending:
  "st \<noteq> Pending \<Longrightarrow> tasks w tid \<noteq> None \<Longrightarrow> \<not> is_pending (finish tid st w) tid"
  by (auto simp: finish_def is_pending_def split: option.splits)

lemma loop_of_finish [simp]: "loop_of (finish tid st w) tid' = loop_of w tid'"
  by (auto simp: finish_def loop_of_def split: option.splits)

lemma registry_inv_add_done_callback:
  assumes inv: "registry_inv w"
  shows "registry_inv (add_done_callback tid cb w)"
  unfolding registry_inv_def
proof
  fix tid' assume "tid' \<in> BACKGROUND_TASKS (add_done_callback tid cb w)"
  then have "tid' \<in> BACKGROUND_TASKS w"
    by (simp add: add_done_callback_def split: option.splits if_splits)
  with inv have "registered_ok w tid'"
    by (simp add: registry_inv_def)
  then show "registered_ok (add_done_callback tid cb w) tid'"
    by (auto simp: registered_ok_def add_done_callback_def split: option.splits if_splits)
qed

lemma create_task_result:
  assumes sub: "create_task w t c = Inr (tid, w1)"
  shows "\<exists>l. get_running_loop (the_host w) t = Inr l \<and> tid = next_task w \<and>
           w1 = w\<lparr>tasks := (tasks w)(tid \<mapsto>
                     \<lparr>task_loop = l, task_coro = c, task_state = Pending,
                      done_callbacks = [RegistryDiscard]\<rparr>),
                  next_task := Suc tid,
                  BACKGROUND_TASKS := insert tid (BACKGROUND_TASKS w)\<rparr>"
  using sub
  by (auto simp: create_task_def asyncio_create_task_def add_done_callback_def Let_def
      split: sum.splits)

lemma registry_inv_create_task:
  assumes inv: "registry_inv w" and sub: "create_task w t c = Inr (tid, w1)"
  shows "registry_inv w1"
  unfolding registry_inv_def
proof
  fix tid' assume reg: "tid' \<in> BACKGROUND_TASKS w1"
  from create_task_result [OF sub] obtain l where
    w1: "w1 = w\<lparr>tasks := (tasks w)(tid \<mapsto>
                     \<lparr>task_loop = l, task_coro = c, task_state = Pending,
                      done_callbacks = [RegistryDiscard]\<rparr>),
                  next_task := Suc tid,
                  BACKGROUND_TASKS := insert tid (BACKGROUND_TASKS w)\<rparr>"
    by auto
  show "registered_ok w1 tid'"
  proof (cases "tid' = tid")
    case True
    then show ?thesis by (simp add: w1 registered_ok_def)
  next
    case False
    with reg have "tid' \<in> BACKGROUND_TASKS w" by (simp add: w1)
    with inv have "registered_ok w tid'" by (simp add: registry_inv_def)
    with False show ?thesis by (simp add: w1 registered_ok_def split: option.splits)
  qed
qed

lemma registry_inv_apply_op:
  "registry_inv w \<Longrightarrow> registry_inv (apply_op x w)"
proof (cases x)
  case (Submit t c)
  assume "registry_inv w"
  then show ?thesis
    using Submit by (auto split: sum.splits dest: registry_inv_create_task)
next
  case (Complete tid)
  assume "registry_inv w"
  then show ?thesis
    using Complete by (simp add: complete_def registry_inv_finish split: option.splits)
next
  case (Cancel tid)
  assume "registry_inv w"
  then show ?thesis
    using Cancel by (simp add: cancel_def registry_inv_finish)
next
  case (AddCallback tid n)
  assume "registry_inv w"
  then show ?thesis
    using AddCallback by (simp add: registry_inv_add_done_callback)
next
  case (RunOnce l)
  assume "registry_inv w"
  then show ?thesis
    using RunOnce by (simp add: registry_inv_run_once)
qed

lemma registry_inv_apply_ops:
  "registry_inv w \<Longrightarrow> registry_inv (apply_ops xs w)"
  by (induction xs arbitrary: w) (simp_all add: registry_inv_apply_op)

lemma known_finish: "tid \<in> dom (tasks w) \<Longrightarrow> tid \<in> dom (tasks (finish tid' st w))"
  by (auto simp: finish_def split: option.splits)

lemma known_apply_op: "tid \<in> dom (tasks w) \<Longrightarrow> tid \<in> dom (tasks (apply_op x w))"
proof (cases x)
  case (Submit t c)
  assume "tid \<in> dom (tasks w)"
  then show ?thesis
    using Submit by (auto split: sum.splits dest!: create_task_result)
next
  case (Complete tid')
  assume "tid \<in> dom (tasks w)"
  then show ?thesis
    using Complete by (simp add: complete_def known_finish split: option.splits)
next
  case (Cancel tid')
  assume "tid \<in> dom (tasks w)"
  then show ?thesis
    using Cancel by (simp add: cancel_def known_finish)
next
  case (AddCallback tid' n)
  assume "tid \<in> dom (tasks w)"
  then show ?thesis
    using AddCallback by (auto simp: add_done_callback_def split: option.splits)
next
  case (RunOnce l)
  assume "tid \<in> dom (tasks w)"
  then show ?thesis
    using RunOnce by simp
qed

lemma known_apply_ops: "tid \<in> dom (tasks w) \<Longrightarrow> tid \<in> dom (tasks (apply_ops xs w))"
  by (induction xs arbitrary: w) (simp_all add: known_apply_op)

text \<open>
  Claim C7. A handle that \<open>create_task\<close> returns is in the registry right after the
  submission, and pending. Whatever happens afterwards (other submissions, completions,
  cancellations, further callbacks, loop iterations: \<open>ops\<close>), the task is still known, and
  once it reaches a terminal state \<open>st\<close> (a result, an exception or a cancellation) the
  next iteration of its loop runs the completion callback and the handle is no longer
  registered. After an iteration of a loop, every registered task of that loop is
  pending: no terminal task stays registered.
\<close>

theorem create_task_registers_until_done:
  assumes inv: "registry_inv w" and sub: "create_task w t c = Inr (tid, w1)"
  shows "tid \<in> BACKGROUND_TASKS w1 \<and> is_pending w1 tid \<and>
         registry_inv (apply_ops ops w1) \<and>
         loop_of (apply_ops ops w1) tid \<noteq> None \<and>
         (st \<noteq> Pending \<longrightarrow> loop_of (apply_ops ops w1) tid = Some l \<longrightarrow>
            tid \<notin> BACKGROUND_TASKS (run_once l (finish tid st (apply_ops ops w1)))) \<and>
         (\<forall>tid' \<in> BACKGROUND_TASKS (run_once l' (apply_ops ops w1)).
            loop_of (apply_ops ops w1) tid' = Some l' \<longrightarrow>
            is_pending (run_once l' (apply_ops ops w1)) tid')"
proof -
  let ?w2 = "apply_ops ops w1"
  from create_task_result [OF sub] have
    reg: "tid \<in> BACKGROUND_TASKS w1" and pend: "is_pending w1 tid" and known: "tid \<in> dom (tasks w1)"
    by (auto simp: is_pending_def)
  have inv1: "registry_inv w1"
    by (rule registry_inv_create_task [OF inv sub])
  have inv2: "registry_inv ?w2"
    by (rule registry_inv_apply_ops [OF inv1])
  have "tid \<in> dom (tasks ?w2)"
    by (rule known_apply_ops [OF known])
  then have known2: "tasks ?w2 tid \<noteq> None"
    by auto
  have removed: "tid \<notin> BACKGROUND_TASKS (run_once l (finish tid st ?w2))"
    if st: "st \<noteq> Pending" and lp: "loop_of ?w2 tid = Some l"
  proof
    assume "tid \<in> BACKGROUND_TASKS (run_once l (finish tid st ?w2))"
    from run_once_settles [OF registry_inv_finish [OF inv2] this] lp
    have "is_pending (finish tid st ?w2) tid" by simp
    with finish_not_pending [OF st known2] show False by simp
  qed
  have settled: "is_pending (run_once l' ?w2) tid'"
    if "tid' \<in> BACKGROUND_TASKS (run_once l' ?w2)" "loop_of ?w2 tid' = Some l'" for tid'
    using run_once_settles [OF inv2 that] by simp
  from reg pend inv2 known2 removed settled show ?thesis
    by (simp add: loop_of_def)
qed

theorem create_task_registers_until_done_witness:
  "registry_inv world0 \<and>
   create_task world0 0 (Coroutine (Returned 1)) = Inr (0, world1) \<and>
   0 \<in> BACKGROUND_TASKS world1 \<and>
   loop_of (apply_ops [Submit 0 (Coroutine Hangs), AddCallback 0 5] world1) 0 = Some 7 \<and>
   0 \<in> BACKGROUND_TASKS (apply_ops [Submit 0 (Coroutine Hangs), AddCallback 0 5] world1) \<and>
   0 \<notin> BACKGROUND_TASKS (run_once 7 (finish 0 (Succeeded 1)
           (apply_ops [Submit 0 (Coroutine Hangs), AddCallback 0 5] world1))) \<and>
   0 \<notin> BACKGROUND_TASKS (run_once 7 (finish 0 (Failed (Exn ValueError ''boom''))
           (apply_ops [Submit 0 (Coroutine Hangs), AddCallback 0 5] world1))) \<and>
   0 \<notin> BACKGROUND_TASKS (run_once 7 (finish 0 Cancelled
           (apply_ops [Submit 0 (Coroutine Hangs), AddCallback 0 5] world1)))"
proof -
  have inv: "registry_inv world0"
    by (simp add: registry_inv_def world0_def)
  have sub: "create_task world0 0 (Coroutine (Returned 1)) = Inr (0, world1)"
    by (simp add: create_task_def asyncio_create_task_def add_done_callback_def
        get_running_loop_def world0_def world1_def host1_def Let_def)
  have lp: "loop_of (apply_ops [Submit 0 (Coroutine Hangs), AddCallback 0 5] world1) 0 = Some 7"
    by (simp add: create_task_def asyncio_create_task_def add_done_callback_def
        get_running_loop_def world1_def host1_def Let_def loop_of_def)
  have still: "0 \<in> BACKGROUND_TASKS (apply_ops [Submit 0 (Coroutine Hangs), AddCallback 0 5] world1)"
    by (simp add: create_task_def asyncio_create_task_def add_done_callback_def
        get_running_loop_def world1_def host1_def Let_def)
  note inst = create_task_registers_until_done [OF inv sub,
      of "[Submit 0 (Coroutine Hangs), AddCallback 0 5]" _ 7 7]
  from inst [of "Succeeded 1"] inst [of "Failed (Exn ValueError ''boom'')"] inst [of Cancelled]
  show ?thesis
    using inv sub lp still by simp
qed

section \<open>Synchronous twins\<close>

lemma getattr_setattr: "getattr (setattr n v d) k = (if k = n then Some v else getattr d k)"
  by (induction n v d rule: setattr.induct) (auto simp: getattr_def)

lemma install_untouched:
  "install ms cls = Inr cls' \<Longrightarrow> n \<notin> set (twin_names ms) \<Longrightarrow> getattr cls' n = getattr cls n"
proof (induction ms arbitrary: cls)
  case Nil
  then show ?case by simp
next
  case (Cons m ms)
  show ?case
  proof (cases m)
    case (AsyncFunction f)
    with Cons show ?thesis
      by (auto simp: getattr_setattr split: option.splits)
  next
    case (SyncFunction w)
    with Cons show ?thesis by simp
  next
    case NonCallable
    with Cons show ?thesis by simp
  qed
qed

lemma install_twin:
  "install ms cls = Inr cls' \<Longrightarrow>
   getattr cls' n = (case twin_for ms n of Some w \<Rightarrow> Some (SyncFunction w) | None \<Rightarrow> getattr cls n)"
proof (induction ms arbitrary: cls)
  case Nil
  then show ?case by simp
next
  case (Cons m ms)
  show ?case
  proof (cases m)
    case (AsyncFunction f)
    with Cons show ?thesis
      by (auto simp: getattr_setattr split: option.splits)
  next
    case (SyncFunction w)
    with Cons show ?thesis by simp
  next
    case NonCallable
    with Cons show ?thesis by simp
  qed
qed

lemma body_expose_sync_method [simp]: "body (expose_sync_method nm f) = body f"
  by (simp add: expose_sync_method_def)

lemma call_twin:
  assumes "init_subclass cls = Inr cls'" and "twin_for (map snd cls) nm = Some (SyncWrapper b)"
  shows "call_method cls' nm self x h t =
           (case run_sync h t (b self x) of
              (Returned v, h') \<Rightarrow> (Returned (Plain v), h')
            | (Raised e, h') \<Rightarrow> (Raised e, h')
            | (Hangs, h') \<Rightarrow> (Hangs, h'))"
  using assms install_twin [of "map snd cls" cls cls' nm]
  by (simp add: init_subclass_def call_method_def)

lemma sync_twin_no_scheduler:
  assumes "init_subclass cls = Inr cls'" and "twin_for (map snd cls) nm = Some (SyncWrapper b)"
    and "\<not> scheduler_active h t"
  shows "fst (call_method cls' nm self x h t) = map_outcome Plain (behaviour (b self x))"
  using assms(3)
  by (cases "behaviour (b self x)")
     (simp_all add: call_twin [OF assms(1,2)] run_sync_no_scheduler_result)

lemma sync_twin_reentrant:
  assumes "init_subclass cls = Inr cls'" and "twin_for (map snd cls) nm = Some (SyncWrapper b)"
    and "threads_exist h" and "scheduler_active h t"
    and "\<forall>e. behaviour (b self x) = Raised e \<longrightarrow> \<not> isinstance_RuntimeError e"
  shows "fst (call_method cls' nm self x h t) = map_outcome Plain (behaviour (b self x))"
  using assms(5)
  by (cases "behaviour (b self x)")
     (simp_all add: call_twin [OF assms(1,2)] run_sync_isolated [OF assms(3,4)])

lemma await_async_method:
  "getattr cls n = Some (AsyncFunction f) \<Longrightarrow>
   await_method cls n self x h t = await_under_scheduler h t (body f self x)"
  by (simp add: await_method_def call_method_def await_value_def)

lemma Foo_twin_41:
  "init_subclass Foo =
     Inr [(''foo_async'', AsyncFunction (expose_sync_method ''foo'' (async_def incr))),
          (''foo'', SyncFunction (SyncWrapper incr))] \<and>
   fst (call_method [(''foo_async'', AsyncFunction (expose_sync_method ''foo'' (async_def incr))),
          (''foo'', SyncFunction (SyncWrapper incr))] ''foo'' () 41 host0 0) = Returned (Plain 42) \<and>
   fst (await_method [(''foo_async'', AsyncFunction (expose_sync_method ''foo'' (async_def incr))),
          (''foo'', SyncFunction (SyncWrapper incr))] ''foo_async'' () 41 host1 0) = Returned 42"
  by (simp add: Foo_def init_subclass_def expose_sync_method_def async_def_def
      call_method_def getattr_def await_method_def await_value_def await_under_scheduler_def
      incr_def host0_def run_sync_no_scheduler_result scheduler_active_def)

text \<open>
  Claim C6 (the twin \<open>foo\<close> returns or raises what awaiting \<open>foo_async\<close> does) holds at a
  call site with no scheduler, and at a call site inside scheduled code unless the method
  raises a \<^verbatim>\<open>RuntimeError\<close>: the lemmas above, with \<open>foo(41) = 42\<close> on \<open>host0\<close>. It fails
  for a method that raises \<^verbatim>\<open>RuntimeError("boom")\<close> when the twin is called on a thread that
  hosts a running loop (\<open>host1\<close>, thread \<open>0\<close>): awaiting \<open>foo_async\<close> raises that error,
  the twin raises the refusal of \<^verbatim>\<open>asyncio.run\<close>.
\<close>

theorem sync_twin_reentrant_RuntimeError_replaced:
  "init_subclass FooErr =
     Inr [(''foo_async'', AsyncFunction (expose_sync_method ''foo'' (async_def fail_boom))),
          (''foo'', SyncFunction (SyncWrapper fail_boom))] \<and>
   fst (await_method [(''foo_async'', AsyncFunction (expose_sync_method ''foo'' (async_def fail_boom))),
          (''foo'', SyncFunction (SyncWrapper fail_boom))] ''foo_async'' () 41 host1 0) =
     Raised (Exn RuntimeError ''boom'') \<and>
   fst (call_method [(''foo_async'', AsyncFunction (expose_sync_method ''foo'' (async_def fail_boom))),
          (''foo'', SyncFunction (SyncWrapper fail_boom))] ''foo'' () 41 host1 0) =
     Raised (Exn RuntimeError ''asyncio.run() cannot be called from a running event loop'')"
proof -
  have ok: "threads_exist host1" and act: "scheduler_active host1 0"
    by (simp_all add: host1_def threads_exist_def scheduler_active_def)
  show ?thesis
    by (simp add: FooErr_def init_subclass_def expose_sync_method_def async_def_def
      call_method_def getattr_def await_method_def await_value_def await_under_scheduler_def
      fail_boom_def run_sync_isolated [OF ok act] isinstance_RuntimeError_def refusal_def)
qed

text \<open>
  Claim C8, as stated, fails when a declared twin name is the name of a scheduled method of
  the type. In \<open>Clash\<close> the twin of \<open>a_async\<close> is declared under the name \<open>b_async\<close>:
  the installation replaces the method \<open>b_async\<close> by that twin, so awaiting
  \<open>instance.b_async(3)\<close> is a \<^verbatim>\<open>TypeError\<close> where the type without declarations answers
  \<open>6\<close>.
\<close>

theorem twin_name_of_a_method_counterexample:
  "getattr Clash ''b_async'' = Some (AsyncFunction (expose_sync_method ''b'' (async_def dbl))) \<and>
   init_subclass Clash =
     Inr [(''a_async'', AsyncFunction (expose_sync_method ''b_async'' (async_def incr))),
          (''b_async'', SyncFunction (SyncWrapper incr)),
          (''b'', SyncFunction (SyncWrapper dbl))] \<and>
   fst (await_method
         [(''a_async'', AsyncFunction (expose_sync_method ''b_async'' (async_def incr))),
          (''b_async'', SyncFunction (SyncWrapper incr)),
          (''b'', SyncFunction (SyncWrapper dbl))] ''b_async'' () 3 host1 0) =
     Raised (Exn TypeError ''object can't be used in 'await' expression'') \<and>
   fst (await_method Plain_b ''b_async'' () 3 host1 0) = Returned 6"
proof -
  have ok: "threads_exist host1" and act: "scheduler_active host1 0"
    by (simp_all add: host1_def threads_exist_def scheduler_active_def)
  show ?thesis
    by (simp add: Clash_def Plain_b_def init_subclass_def expose_sync_method_def async_def_def
      call_method_def getattr_def await_method_def await_value_def await_under_scheduler_def
      incr_def dbl_def run_sync_isolated [OF ok act])
qed

text \<open>
  Claim C8, amended. The decorator leaves the code of the method as it is, and when no
  twin name declared on the type is the method's own name \<open>n\<close>, the installation leaves
  the method under \<open>n\<close>: awaiting \<open>instance.n(x)\<close> under a scheduler does what awaiting the
  undecorated method does.
\<close>

theorem expose_sync_method_keeps_method:
  assumes "getattr cls n = Some (AsyncFunction (expose_sync_method nm f))"
    and "init_subclass cls = Inr cls'"
    and "n \<notin> set (twin_names (map snd cls))"
  shows "body (expose_sync_method nm f) = body f \<and>
         getattr cls' n = Some (AsyncFunction (expose_sync_method nm f)) \<and>
         await_method cls' n self x h t = await_under_scheduler h t (body f self x) \<and>
         await_method cls' n self x h t = await_method [(n, AsyncFunction f)] n self x h t"
proof -
  from assms have g: "getattr cls' n = Some (AsyncFunction (expose_sync_method nm f))"
    by (simp add: init_subclass_def install_untouched)
  have "getattr [(n, AsyncFunction f)] n = Some (AsyncFunction f)"
    by (simp add: getattr_def)
  with g show ?thesis
    by (simp add: await_async_method)
qed

theorem expose_sync_method_keeps_method_witness:
  "getattr Foo ''foo_async'' = Some (AsyncFunction (expose_sync_method ''foo'' (async_def incr))) \<and>
   init_subclass Foo =
     Inr [(''foo_async'', AsyncFunction (expose_sync_method ''foo'' (async_def incr))),
          (''foo'', SyncFunction (SyncWrapper incr))] \<and>
   ''foo_async'' \<notin> set (twin_names (map snd Foo)) \<and>
   fst (await_method [(''foo_async'', AsyncFunction (expose_sync_method ''foo'' (async_def incr))),
          (''foo'', SyncFunction (SyncWrapper incr))] ''foo_async'' () 41 host1 0) = Returned 42"
proof -
  have a: "getattr Foo ''foo_async'' = Some (AsyncFunction (expose_sync_method ''foo'' (async_def incr)))"
    by (simp add: Foo_def getattr_def)
  have b: "init_subclass Foo =
     Inr [(''foo_async'', AsyncFunction (expose_sync_method ''foo'' (async_def incr))),
          (''foo'', SyncFunction (SyncWrapper incr))]"
    by (simp add: Foo_def init_subclass_def expose_sync_method_def async_def_def)
  have c: "''foo_async'' \<notin> set (twin_names (map snd Foo))"
    by (simp add: Foo_def expose_sync_method_def)
  from expose_sync_method_keeps_method [OF a b c, of "()" 41 host1 0]
  show ?thesis
    using a b c by (simp add: await_under_scheduler_def async_def_def incr_def)
qed

end
